theory Spec2Isabelle
  imports Main
begin

unbundle bit_operations_syntax

section \<open>JavaScript values and library functions the program relies on\<close>

text \<open>
  The program is one TypeScript module, \<^verbatim>\<open>src/index.ts\<close>. Its strings are modelled as
  \<^typ>\<open>string\<close> (a list of characters, one per code unit), its arrays as lists, a value
  that may be \<^verbatim>\<open>undefined\<close> or \<^verbatim>\<open>null\<close> as an \<^typ>\<open>'a option\<close>, and a call that
  may throw as a \<open>completion\<close>: either the returned value or the exception that
  leaves the function. \<open>OtherError\<close> stands for any thrown value that is not one of
  the three named errors.
\<close>

datatype js_error = TypeError | SyntaxError | ReferenceError | OtherError

datatype 'a completion = Returns 'a | Throws js_error

text \<open>
  \<^verbatim>\<open>s.split(sep)\<close> for a one-character separator: the pieces between the
  separators, empty pieces included, so the empty string gives one empty piece. A
  character that is not the separator joins the first piece of what follows; there
  is always such a piece, so the empty case of the inner distinction is never taken.
\<close>

fun js_split :: "char \<Rightarrow> string \<Rightarrow> string list" where
  "js_split sep [] = [[]]"
| "js_split sep (c # cs) =
     (if c = sep then [] # js_split sep cs
      else (case js_split sep cs of
              [] \<Rightarrow> [[c]]
            | piece # pieces \<Rightarrow> (c # piece) # pieces))"

text \<open>\<^verbatim>\<open>xs.join(sep)\<close> on an array of strings; the empty array gives the empty string.\<close>

fun js_join :: "string \<Rightarrow> string list \<Rightarrow> string" where
  "js_join sep [] = []"
| "js_join sep [x] = x"
| "js_join sep (x # y # ys) = x @ sep @ js_join sep (y # ys)"

definition js_startsWith :: "string \<Rightarrow> string \<Rightarrow> bool" where
  "js_startsWith s pre = (take (length pre) s = pre)"

definition js_endsWith :: "string \<Rightarrow> string \<Rightarrow> bool" where
  "js_endsWith s suf = (length suf \<le> length s \<and> drop (length s - length suf) s = suf)"

section \<open>The data model (index.ts, lines 1 to 48 and 279 to 283)\<close>

text \<open>
  Field names follow the source. Where two object types of the source share a field
  name, the later record carries a prefix: \<open>group_name\<close> and \<open>group_gid\<close> are
  \<^verbatim>\<open>FsGroup.name\<close> and \<^verbatim>\<open>FsGroup.gid\<close>, \<open>owner_user\<close> and \<open>owner_group\<close> are the two
  fields of \<^verbatim>\<open>FsMetadata.owner\<close>, \<open>perm_user\<close>, \<open>perm_group\<close> and \<open>perm_other\<close>
  are the three fields of \<^verbatim>\<open>FsPermissions\<close>, \<open>node_name\<close> is \<^verbatim>\<open>FsMetadata.name\<close>, and
  \<open>env_user\<close> and \<open>env_vars\<close> are \<^verbatim>\<open>Env.user\<close> and \<^verbatim>\<open>Env.env\<close>.
  A \<^verbatim>\<open>Date\<close> is a number of milliseconds.
\<close>

record FsPermission =
  read :: bool
  "write" :: bool
  execute :: bool

record FsPermissions =
  perm_user :: FsPermission
  perm_group :: FsPermission
  perm_other :: FsPermission

record FsUser =
  name :: string
  uid :: int
  gid :: int
  groups :: "int list"

record FsGroup =
  group_name :: string
  group_gid :: int

record FsOwner =
  owner_user :: FsUser
  owner_group :: "FsGroup option"

record FsMetadata =
  node_name :: "string option"
  owner :: FsOwner
  permissions :: FsPermissions
  modified :: nat

text \<open>
  \<^verbatim>\<open>FsNode = (FsFile | FsDirectory) & FsMetadata\<close>: the tag \<^verbatim>\<open>type\<close> is the constructor,
  \<^verbatim>\<open>contents\<close> is a string for a file and the array of children for a directory.
\<close>

datatype FsNode =
  File FsMetadata string
| Directory FsMetadata "FsNode list"

fun metadata :: "FsNode \<Rightarrow> FsMetadata" where
  "metadata (File m c) = m"
| "metadata (Directory m ns) = m"

fun is_file :: "FsNode \<Rightarrow> bool" where
  "is_file (File m c) = True"
| "is_file (Directory m ns) = False"

datatype Path = Path (path: string)

record Env =
  cwd :: Path
  env_user :: FsUser
  env_vars :: "(string \<times> string) list"

section \<open>Path (index.ts, lines 229 to 277)\<close>

definition Path_toString :: "Path \<Rightarrow> string" where
  "Path_toString p = path p"

definition Path_isAbsolute :: "Path \<Rightarrow> bool" where
  "Path_isAbsolute p = js_startsWith (path p) ''/''"

text \<open>\<^verbatim>\<open>filter(v => v)\<close> keeps the truthy pieces: every string but the empty one.\<close>

definition Path_parts :: "Path \<Rightarrow> string list" where
  "Path_parts p = filter (\<lambda>v. v \<noteq> []) (js_split CHR ''/'' (path p))"

definition Path_append :: "Path \<Rightarrow> string + Path \<Rightarrow> Path" where
  "Path_append p part =
     (let part' = (case part of Inl s \<Rightarrow> s | Inr q \<Rightarrow> Path_toString q)
      in if js_endsWith (path p) ''/''
         then Path (path p @ part')
         else Path (path p @ ''/'' @ part'))"

text \<open>
  The \<^verbatim>\<open>for (let part of parts)\<close> loop of \<^verbatim>\<open>canonicalize\<close>, with the array \<^verbatim>\<open>res\<close> as
  its state. \<^verbatim>\<open>res.push(part)\<close> adds at the end; \<^verbatim>\<open>res.pop()\<close> removes the last
  element and, on an empty array, does nothing and returns \<^verbatim>\<open>undefined\<close>, which is
  what \<^const>\<open>butlast\<close> does on the empty list.
\<close>

fun canonicalize_loop :: "string list \<Rightarrow> string list \<Rightarrow> string list" where
  "canonicalize_loop res [] = res"
| "canonicalize_loop res (part # parts) =
     (if part = ''..'' then canonicalize_loop (butlast res) parts
      else if part = ''.'' then canonicalize_loop res parts
      else canonicalize_loop (res @ [part]) parts)"

text \<open>\<^verbatim>\<open>canonicalize\<close> reads the global \<^verbatim>\<open>env\<close>; here it is the first argument.\<close>

definition Path_canonicalize :: "Env \<Rightarrow> Path \<Rightarrow> Path" where
  "Path_canonicalize env this =
     (let tmp = (if \<not> Path_isAbsolute this then Path_append (cwd env) (Inr this) else this);
          parts = Path_parts tmp
      in Path (''/'' @ js_join ''/'' (canonicalize_loop [] parts)))"

section \<open>Identity registry and permissions (index.ts, lines 50 to 145)\<close>

datatype perm_kind = DIRECTORY | FILE

fun defaultPermissions :: "perm_kind \<Rightarrow> FsPermissions" where
  "defaultPermissions DIRECTORY =
     \<lparr>perm_user = \<lparr>read = True, write = True, execute = True\<rparr>,
      perm_group = \<lparr>read = True, write = True, execute = True\<rparr>,
      perm_other = \<lparr>read = True, write = False, execute = True\<rparr>\<rparr>"
| "defaultPermissions FILE =
     \<lparr>perm_user = \<lparr>read = True, write = True, execute = False\<rparr>,
      perm_group = \<lparr>read = True, write = True, execute = False\<rparr>,
      perm_other = \<lparr>read = True, write = False, execute = False\<rparr>\<rparr>"

text \<open>
  \<^verbatim>\<open>fsGroups\<close> and \<^verbatim>\<open>fsUsers\<close> are objects indexed by number; reading a key that is
  not there gives \<^verbatim>\<open>undefined\<close>.
\<close>

definition fsGroups :: "int \<Rightarrow> FsGroup option" where
  "fsGroups k =
     (if k = 0 then Some \<lparr>group_name = ''root'', group_gid = 0\<rparr>
      else if k = 1000 then Some \<lparr>group_name = ''nyx'', group_gid = 1000\<rparr>
      else None)"

definition fsUsers :: "int \<Rightarrow> FsUser option" where
  "fsUsers k =
     (if k = 0 then Some \<lparr>name = ''root'', uid = 0, gid = 0, groups = []\<rparr>
      else if k = 1000 then Some \<lparr>name = ''nyx'', uid = 1000, gid = 1000, groups = []\<rparr>
      else None)"

text \<open>The argument of \<^verbatim>\<open>FsPermissions\<close>: \<^verbatim>\<open>string | number | FsPermissions\<close>.\<close>

datatype perm_arg = PString string | PNumber int | PObject FsPermissions

text \<open>
  \<^verbatim>\<open>permissions.split('').map(Number)\<close> turns each character into a number, and
  \<^verbatim>\<open>perms[i] & k\<close> converts that number to a 32-bit integer first. A decimal digit
  gives its value; every other character gives \<^verbatim>\<open>NaN\<close> (white space gives 0), and
  \<^verbatim>\<open>NaN\<close> becomes 0 under \<^verbatim>\<open>&\<close>. \<open>Number_char\<close> is the composition of the two.
\<close>

definition Number_char :: "char \<Rightarrow> int" where
  "Number_char c =
     (let n = (of_char c :: nat)
      in if 48 \<le> n \<and> n \<le> 57 then int n - 48 else 0)"

text \<open>
  \<^verbatim>\<open>perms[i]\<close> as an operand of \<^verbatim>\<open>&\<close>: an index past the end reads \<^verbatim>\<open>undefined\<close>,
  which becomes 0.
\<close>

definition perms_at :: "int list \<Rightarrow> nat \<Rightarrow> int" where
  "perms_at perms i = (if i < length perms then perms ! i else 0)"

text \<open>The object literal of lines 128 to 144, with its comparisons \<^verbatim>\<open>== 1\<close>.\<close>

definition decode_perms :: "int list \<Rightarrow> FsPermissions" where
  "decode_perms perms =
     \<lparr>perm_user =
        \<lparr>read = (perms_at perms 0 AND 4 = 1),
         write = (perms_at perms 0 AND 2 = 1),
         execute = (perms_at perms 0 AND 1 = 1)\<rparr>,
      perm_group =
        \<lparr>read = (perms_at perms 1 AND 4 = 1),
         write = (perms_at perms 1 AND 2 = 1),
         execute = (perms_at perms 1 AND 1 = 1)\<rparr>,
      perm_other =
        \<lparr>read = (perms_at perms 2 AND 4 = 1),
         write = (perms_at perms 2 AND 2 = 1),
         execute = (perms_at perms 2 AND 1 = 1)\<rparr>\<rparr>"

text \<open>\<^verbatim>\<open>0o655\<close> is 429; \<^verbatim>\<open>>>\<close> is \<^const>\<open>drop_bit\<close>. The numeric branch does not read its argument.\<close>

definition FsPermissions :: "perm_arg \<Rightarrow> FsPermissions" where
  "FsPermissions arg =
     (case arg of
        PString s \<Rightarrow> decode_perms (map Number_char s)
      | PNumber n \<Rightarrow> decode_perms [429 AND 7, drop_bit 3 429 AND 7, drop_bit 6 429 AND 7]
      | PObject p \<Rightarrow> p)"

section \<open>Node construction (index.ts, lines 147 to 184)\<close>

text \<open>
  An omitted argument is \<open>None\<close>. The global \<^verbatim>\<open>env\<close> and the clock read by
  \<^verbatim>\<open>new Date()\<close> are the first two arguments.
\<close>

definition FsDirectory ::
  "Env \<Rightarrow> nat \<Rightarrow> string option \<Rightarrow> FsNode list option \<Rightarrow> FsUser option \<Rightarrow> perm_arg option \<Rightarrow> FsNode" where
  "FsDirectory env now nm files owner_arg permissions_arg =
     (let owner' = (case owner_arg of None \<Rightarrow> env_user env | Some u \<Rightarrow> u);
          permissions' = FsPermissions
            (case permissions_arg of None \<Rightarrow> PObject (defaultPermissions DIRECTORY) | Some p \<Rightarrow> p)
      in Directory
           \<lparr>node_name = nm,
            owner = \<lparr>owner_user = owner', owner_group = fsGroups (gid owner')\<rparr>,
            permissions = permissions',
            modified = now\<rparr>
           (case files of None \<Rightarrow> [] | Some fs \<Rightarrow> fs))"

definition FsFile ::
  "Env \<Rightarrow> nat \<Rightarrow> string option \<Rightarrow> string option \<Rightarrow> FsUser option \<Rightarrow> perm_arg option \<Rightarrow> FsNode" where
  "FsFile env now nm content owner_arg permissions_arg =
     (let owner' = (case owner_arg of None \<Rightarrow> env_user env | Some u \<Rightarrow> u);
          permissions' = FsPermissions
            (case permissions_arg of None \<Rightarrow> PObject (defaultPermissions DIRECTORY) | Some p \<Rightarrow> p)
      in File
           \<lparr>node_name = nm,
            owner = \<lparr>owner_user = owner', owner_group = fsGroups (gid owner')\<rparr>,
            permissions = permissions',
            modified = now\<rparr>
           (case content of None \<Rightarrow> [] | Some c \<Rightarrow> c))"

section \<open>Resolution (index.ts, lines 186 to 219)\<close>

record Fs =
  root :: FsNode

text \<open>
  The loop of \<^verbatim>\<open>resolve\<close> over the index \<^verbatim>\<open>i\<close>. A bare \<^verbatim>\<open>return\<close> gives \<^verbatim>\<open>undefined\<close>,
  here \<open>None\<close>. The inner \<^verbatim>\<open>for ... of\<close> with its \<^verbatim>\<open>break\<close> takes the first child whose
  name is the segment, which is \<^const>\<open>find\<close>.
\<close>

function resolve_loop :: "string list \<Rightarrow> nat \<Rightarrow> FsNode \<Rightarrow> FsNode option" where
  "resolve_loop parts i currentNode =
     (if i < length parts + 1 then
        (if i = length parts then Some currentNode
         else (case currentNode of
                 File m c \<Rightarrow> None
               | Directory m contents \<Rightarrow>
                   (case find (\<lambda>node. node_name (metadata node) = Some (parts ! i)) contents of
                      None \<Rightarrow> None
                    | Some node \<Rightarrow> resolve_loop parts (i + 1) node)))
      else None)"
  by pat_completeness auto
termination
  by (relation "measure (\<lambda>(parts, i, currentNode). length parts + 1 - i)") auto

definition Fs_resolve :: "Fs \<Rightarrow> Path \<Rightarrow> FsNode option" where
  "Fs_resolve fs p = resolve_loop (Path_parts p) 0 (root fs)"

section \<open>Environment (index.ts, lines 284 to 299)\<close>

text \<open>
  \<^verbatim>\<open>fsUsers[uid]\<close> is \<^verbatim>\<open>undefined\<close> for a uid that is not registered, and reading
  \<^verbatim>\<open>user.name\<close> then throws a TypeError.
\<close>

definition Env :: "int \<Rightarrow> Env completion" where
  "Env u =
     (case fsUsers u of
        None \<Rightarrow> Throws TypeError
      | Some user \<Rightarrow>
          (let home = Path_append (Path ''/home'') (Inl (name user))
           in Returns
                \<lparr>cwd = home,
                 env_user = user,
                 env_vars =
                   [(''HOME'', Path_toString home),
                    (''PWD'', Path_toString home),
                    (''TMPDIR'', ''/tmp''),
                    (''PS1'', ''[%u@%h:%p]$ ''),
                    (''PATH'', ''/bin'')]\<rparr>))"

section \<open>The module's globals (index.ts, lines 299 to 332)\<close>

definition env :: "Env completion" where
  "env = Env 1000"

text \<open>
  The fixture tree, built by the same constructor calls as the source, under the
  environment \<open>e\<close> that \<^const>\<open>env\<close> returned. \<^verbatim>\<open>fsUsers[0]\<close> is passed as the owner as it
  is read, and \<^verbatim>\<open>0o770\<close> is 504. Every node gets the one clock value \<open>now\<close>.
\<close>

definition fs_tree :: "Env \<Rightarrow> nat \<Rightarrow> FsNode" where
  "fs_tree e now =
     FsDirectory e now None (Some [
       FsDirectory e now (Some ''bin'') (Some [
         FsFile e now (Some ''tree'')
           (Some ''bins.tree(fs.resolve(Path($@.join()).canonicalize()))'') None None
       ]) (fsUsers 0) None,
       FsDirectory e now (Some ''home'') (Some [
         FsDirectory e now (Some ''nyx'') (Some [
           FsDirectory e now (Some ''some dir'') (Some [
             FsDirectory e now (Some ''another dir'') (Some [
               FsFile e now (Some ''Hello World'') (Some ''Wow thats a lot of spaces'') None None,
               FsFile e now (Some ''NoSpace'') (Some ''Wow thats a lot of spaces'') None None
             ]) None None,
             FsDirectory e now (Some ''oops, all dir'') (Some [
               FsFile e now (Some ''nodir'') (Some ''Wow thats a lot of spaces'') None None,
               FsFile e now (Some ''even-some-hypens'') (Some ''Wow thats a lot of spaces'') None None
             ]) None None
           ]) None None,
           FsDirectory e now (Some ''.config'') (Some [
             FsDirectory e now (Some ''nvim'') (Some [
               FsFile e now (Some ''init.lua'') (Some ''Check ../emacs/init.el'') None None
             ]) None None,
             FsDirectory e now (Some ''emacs'') (Some [
               FsFile e now (Some ''init.el'') (Some ''(load-theme 'catppuccin t)'') None None
             ]) None None
           ]) None None,
           FsFile e now (Some ''user.txt'') (Some ''Hello World!'') None None
         ]) None None
       ]) (fsUsers 0) None,
       FsDirectory e now (Some ''root'') (Some [
         FsFile e now (Some ''root.txt'') (Some ''Hello R00t!'') None None
       ]) (fsUsers 0) (Some (PNumber 504))
     ]) (fsUsers 0) None"

definition fs :: "nat \<Rightarrow> Fs completion" where
  "fs now = (case env of Throws x \<Rightarrow> Throws x | Returns e \<Rightarrow> Returns \<lparr>root = fs_tree e now\<rparr>)"

section \<open>Command dispatch (index.ts, lines 391 to 425)\<close>

text \<open>
  \<^verbatim>\<open>v[k]\<close> for any integer \<open>k\<close>: \<^verbatim>\<open>undefined\<close> outside the string, as \<^verbatim>\<open>v[i - 1]\<close> is
  at \<open>i = 0\<close>.
\<close>

definition js_index :: "string \<Rightarrow> int \<Rightarrow> char option" where
  "js_index v k = (if 0 \<le> k \<and> k < int (length v) then Some (v ! nat k) else None)"

text \<open>
  The scanning loop of \<^verbatim>\<open>handleCommand\<close> (lines 396 to 411) over the index \<open>i\<close>, with
  \<^verbatim>\<open>part\<close>, \<^verbatim>\<open>res\<close> and \<^verbatim>\<open>quoted\<close> as its state; the value is \<^verbatim>\<open>res\<close> after the final
  \<^verbatim>\<open>res.push(part)\<close>. \<open>CHR 0x22\<close> is the double quote and \<open>CHR 0x5C\<close> the backslash.
\<close>

function tokenize_loop :: "string \<Rightarrow> nat \<Rightarrow> string \<Rightarrow> string list \<Rightarrow> bool \<Rightarrow> string list" where
  "tokenize_loop v i part res quoted =
     (if i < length v then
        (if v ! i = CHR 0x22 \<and> js_index v (int i - 1) \<noteq> Some (CHR 0x5C)
         then tokenize_loop v (i + 1) part res (\<not> quoted)
         else if v ! i = CHR '' '' \<and> quoted \<noteq> True
         then tokenize_loop v (i + 1) [] (res @ [part]) quoted
         else tokenize_loop v (i + 1) (part @ [v ! i]) res quoted)
      else res @ [part])"
  by pat_completeness auto
termination
  by (relation "measure (\<lambda>(v, i, part, res, quoted). length v - i)") auto

definition tokenize :: "string \<Rightarrow> string list" where
  "tokenize v = tokenize_loop v 0 [] [] False"

text \<open>
  What \<^verbatim>\<open>handleCommand\<close> does besides returning: a line on the console, and the
  evaluation of a file's content. The text handed to \<^verbatim>\<open>eval\<close> is not computed:
  the event keeps the content and the arguments that are substituted into it.
\<close>

datatype event = Log string | Eval string "string list"

text \<open>The value of a function that has no \<^verbatim>\<open>return\<close> with an expression.\<close>

datatype js_value = Undefined

text \<open>
  What the evaluated code does is not part of this module's text, so it is an
  argument: \<open>throws (c, args)\<close> is the exception with which the evaluation of the
  content \<open>c\<close> under the arguments \<open>args\<close> ends, and \<open>None\<close> when it returns. An
  evaluation that returns is taken to leave the tree and the variables of
  \<^verbatim>\<open>handleCommand\<close> as they are.

  The loop over \<^verbatim>\<open>env.env.PATH.split(":")\<close> (lines 414 to 424), with the events so far
  in \<open>out\<close>. \<^verbatim>\<open>contents.find\<close> takes the first child named \<open>cmd\<close>; when there is
  none, or it is not a file, the whole function returns. An exception thrown by
  \<^verbatim>\<open>eval\<close> is not caught and leaves the function. The value is the events that
  happened and the way the function ended.
\<close>

fun path_loop ::
  "Fs \<Rightarrow> (string \<times> string list \<Rightarrow> js_error option) \<Rightarrow> string \<Rightarrow> string list \<Rightarrow> event list \<Rightarrow>
   string list \<Rightarrow> event list \<times> js_value completion" where
  "path_loop fsys throws cmd args out [] = (out, Returns Undefined)"
| "path_loop fsys throws cmd args out (p # ps) =
     (case Fs_resolve fsys (Path p) of
        Some (Directory m contents) \<Rightarrow>
          (case find (\<lambda>f. node_name (metadata f) = Some cmd) contents of
             Some (File m' c) \<Rightarrow>
               (case throws (c, args) of
                  Some x \<Rightarrow>
                    (out @ [Log (''Output of '' @ cmd @ '' with args '' @ js_join '','' args),
                            Eval c args],
                     Throws x)
                | None \<Rightarrow>
                    path_loop fsys throws cmd args
                      (out @ [Log (''Output of '' @ cmd @ '' with args '' @ js_join '','' args),
                              Eval c args]) ps)
           | Some (Directory m' ns) \<Rightarrow> (out, Returns Undefined)
           | None \<Rightarrow> (out, Returns Undefined))
      | Some (File m c) \<Rightarrow> path_loop fsys throws cmd args out ps
      | None \<Rightarrow> path_loop fsys throws cmd args out ps)"

text \<open>
  \<^verbatim>\<open>handleCommand\<close> reads the globals \<^verbatim>\<open>fs\<close> and \<^verbatim>\<open>env\<close>, here its first two arguments.
  \<^verbatim>\<open>env.env.PATH.split\<close> throws a TypeError when the variable is not set.
\<close>

definition handleCommand ::
  "Fs \<Rightarrow> Env \<Rightarrow> (string \<times> string list \<Rightarrow> js_error option) \<Rightarrow> string \<Rightarrow>
   event list \<times> js_value completion" where
  "handleCommand fsys e throws v =
     (let res = tokenize v; cmd = hd res; args = tl res
      in case map_of (env_vars e) ''PATH'' of
           None \<Rightarrow> ([], Throws TypeError)
         | Some PATH \<Rightarrow> path_loop fsys throws cmd args [] (js_split CHR '':'' PATH))"

text \<open>
  Lines 427 to 431: the module has been loaded, so the globals \<^verbatim>\<open>env\<close> and \<^verbatim>\<open>fs\<close> hold
  what \<^const>\<open>env\<close> and \<^const>\<open>fs\<close> returned, and the Enter key hands the line in the prompt to
  \<^verbatim>\<open>handleCommand\<close>.
\<close>

definition on_Enter ::
  "(string \<times> string list \<Rightarrow> js_error option) \<Rightarrow> nat \<Rightarrow> string \<Rightarrow> event list \<times> js_value completion" where
  "on_Enter throws now v =
     (case env of
        Throws x \<Rightarrow> ([], Throws x)
      | Returns e \<Rightarrow>
          (case fs now of
             Throws x \<Rightarrow> ([], Throws x)
           | Returns f \<Rightarrow> handleCommand f e throws v))"

section \<open>The specification's wording, for comparison with the code\<close>

text \<open>
  The stack algorithm as the specification words it: the segments are read left to
  right, \<open>..\<close> pops the stack of output segments, \<open>.\<close> is skipped and any other
  segment is pushed. The top of the stack is the head of the list. The specification
  leaves a pop of the empty stack undefined, which is \<open>None\<close> here.
\<close>

fun spec_stack :: "string list \<Rightarrow> string list \<Rightarrow> string list option" where
  "spec_stack st [] = Some st"
| "spec_stack st (seg # segs) =
     (if seg = ''..'' then (case st of [] \<Rightarrow> None | s # below \<Rightarrow> spec_stack below segs)
      else if seg = ''.'' then spec_stack st segs
      else spec_stack (seg # st) segs)"

text \<open>
  The other steps of canonicalization as the specification words them, on raw
  strings and without the functions of the code. A raw path is absolute when it
  begins with the separator.
\<close>

fun spec_absolute :: "string \<Rightarrow> bool" where
  "spec_absolute [] = False"
| "spec_absolute (c # cs) = (c = CHR ''/'')"

text \<open>
  Appending concatenates the two strings and puts a separator between them unless
  the first already ends with one.
\<close>

definition spec_append :: "string \<Rightarrow> string \<Rightarrow> string" where
  "spec_append a b = (if a \<noteq> [] \<and> last a = CHR ''/'' then a @ b else a @ CHR ''/'' # b)"

text \<open>
  The segments of a raw path: what stands between separators, empty stretches
  dropped. \<open>seg\<close> is the segment being read.
\<close>

fun spec_segments :: "string \<Rightarrow> string \<Rightarrow> string list" where
  "spec_segments seg [] = (if seg = [] then [] else [seg])"
| "spec_segments seg (c # cs) =
     (if c = CHR ''/''
      then (if seg = [] then spec_segments [] cs else seg # spec_segments [] cs)
      else spec_segments (seg @ [c]) cs)"

text \<open>The output segments behind one leading separator, one separator between two.\<close>

fun spec_render :: "string list \<Rightarrow> string" where
  "spec_render [] = ''/''"
| "spec_render [seg] = CHR ''/'' # seg"
| "spec_render (seg # segs) = CHR ''/'' # seg @ spec_render segs"

text \<open>
  A relative path is first appended onto the working directory; the segments of the
  result go through the stack, which is then written out from its bottom.
\<close>

definition spec_canonicalize :: "string \<Rightarrow> string \<Rightarrow> string option" where
  "spec_canonicalize wd p =
     map_option (\<lambda>st. spec_render (rev st))
       (spec_stack [] (spec_segments [] (if spec_absolute p then p else spec_append wd p)))"

text \<open>
  A raw path in canonical form: the separator, followed by nothing or by segments
  with one separator between two of them, no segment empty, \<open>.\<close> or \<open>..\<close>.
\<close>

definition is_canonical :: "string \<Rightarrow> bool" where
  "is_canonical s =
     (case s of
        [] \<Rightarrow> False
      | c # rest \<Rightarrow>
          c = CHR ''/'' \<and>
          (rest = [] \<or>
           list_all (\<lambda>seg. seg \<noteq> [] \<and> seg \<noteq> ''.'' \<and> seg \<noteq> ''..'') (js_split CHR ''/'' rest)))"

text \<open>
  The directory named \<open>d\<close> holds a file called \<open>cmd\<close>: \<open>d\<close> resolves to a directory
  and one of its children is a file of that name.
\<close>

definition holds_command :: "Fs \<Rightarrow> string \<Rightarrow> string \<Rightarrow> bool" where
  "holds_command fsys cmd d =
     (case Fs_resolve fsys (Path d) of
        None \<Rightarrow> False
      | Some (File m c) \<Rightarrow> False
      | Some (Directory m contents) \<Rightarrow>
          list_ex (\<lambda>f. is_file f \<and> node_name (metadata f) = Some cmd) contents)"

text \<open>
  The scanner as the specification words it, reading the line character by character
  with the character before it at hand: a double quote that does not follow a
  backslash toggles the quoted mode and is dropped, a space outside the quoted mode
  ends the token, every other character joins the token, and the token at the end
  of the line is emitted whatever it holds.
\<close>

fun spec_scan :: "char option \<Rightarrow> bool \<Rightarrow> string \<Rightarrow> string \<Rightarrow> string list" where
  "spec_scan prev quoted tok [] = [tok]"
| "spec_scan prev quoted tok (c # cs) =
     (if c = CHR 0x22 \<and> prev \<noteq> Some (CHR 0x5C) then spec_scan (Some c) (\<not> quoted) tok cs
      else if c = CHR '' '' \<and> \<not> quoted then tok # spec_scan (Some c) quoted [] cs
      else spec_scan (Some c) quoted (tok @ [c]) cs)"

text \<open>
  Every double quote of \<open>cs\<close> stands right behind a backslash, \<open>prev\<close> being the
  character before \<open>cs\<close>.
\<close>

fun quotes_escaped :: "char option \<Rightarrow> string \<Rightarrow> bool" where
  "quotes_escaped prev [] = True"
| "quotes_escaped prev (c # cs) =
     ((c \<noteq> CHR 0x22 \<or> prev = Some (CHR 0x5C)) \<and> quotes_escaped (Some c) cs)"

section \<open>Splitting and joining\<close>

lemma js_split_not_Nil: "js_split sep s \<noteq> []"
  by (induction s) (auto split: list.splits)

lemma js_split_Cons:
  "js_split sep (c # cs) =
     (if c = sep then [] # js_split sep cs
      else (c # hd (js_split sep cs)) # tl (js_split sep cs))"
  using js_split_not_Nil [of sep cs] by (cases "js_split sep cs") auto

lemma js_split_append: "js_split sep (a @ sep # b) = js_split sep a @ js_split sep b"
  by (induction a) (auto simp: js_split_not_Nil split: list.splits)

lemma js_join_split: "js_join [sep] (js_split sep s) = s"
proof (induction s)
  case Nil
  then show ?case by simp
next
  case (Cons c cs)
  obtain t ts where ts: "js_split sep cs = t # ts"
    using js_split_not_Nil [of sep cs] by (cases "js_split sep cs") auto
  show ?case using Cons ts by (cases ts) auto
qed

lemma js_split_no_sep: "seg \<in> set (js_split sep s) \<Longrightarrow> sep \<notin> set seg"
proof (induction s arbitrary: seg)
  case Nil
  then show ?case by simp
next
  case (Cons c cs)
  obtain t ts where ts: "js_split sep cs = t # ts"
    using js_split_not_Nil [of sep cs] by (cases "js_split sep cs") auto
  show ?case using Cons ts by (auto split: if_splits)
qed

lemma js_split_plain: "sep \<notin> set s \<Longrightarrow> js_split sep s = [s]"
  by (induction s) auto

lemma js_join_Cons: "xs \<noteq> [] \<Longrightarrow> js_join sep (x # xs) = x @ sep @ js_join sep xs"
  by (cases xs) auto

lemma js_split_join:
  "segs \<noteq> [] \<Longrightarrow> \<forall>seg \<in> set segs. sep \<notin> set seg \<Longrightarrow> js_split sep (js_join [sep] segs) = segs"
proof (induction segs rule: list_nonempty_induct)
  case (single x)
  then show ?case by (simp add: js_split_plain)
next
  case (cons x xs)
  have "js_split sep (x @ sep # js_join [sep] xs) = js_split sep x @ js_split sep (js_join [sep] xs)"
    by (rule js_split_append)
  with cons show ?case by (simp add: js_join_Cons js_split_plain)
qed

section \<open>Permissions and node construction\<close>

lemma and_4_not_1: "(x::int) AND 4 \<noteq> 1"
proof
  assume "x AND 4 = 1"
  then have "odd (x AND 4)" by simp
  then show False by (simp add: even_and_iff)
qed

lemma and_2_not_1: "(x::int) AND 2 \<noteq> 1"
proof
  assume "x AND 2 = 1"
  then have "odd (x AND 2)" by simp
  then show False by (simp add: even_and_iff)
qed

text \<open>
  Claim C1. A permission string of three digits 0 to 7 should decode each digit with
  the masks 4, 2 and 1, a non-zero result meaning true, so that \<^verbatim>\<open>754\<close> is
  \<^verbatim>\<open>rwx r-x r--\<close>. The code compares the masked value with 1 instead: \<^verbatim>\<open>754\<close>
  decodes to \<^verbatim>\<open>--x --x ---\<close>, and for every string whatsoever the read and write
  fields of all three triads are false.
\<close>

theorem FsPermissions_string_754:
  "FsPermissions (PString ''754'') =
     \<lparr>perm_user = \<lparr>read = False, write = False, execute = True\<rparr>,
      perm_group = \<lparr>read = False, write = False, execute = True\<rparr>,
      perm_other = \<lparr>read = False, write = False, execute = False\<rparr>\<rparr> \<and>
   \<not> read (perm_user (FsPermissions (PString s))) \<and>
   \<not> write (perm_user (FsPermissions (PString s))) \<and>
   \<not> read (perm_group (FsPermissions (PString s))) \<and>
   \<not> write (perm_group (FsPermissions (PString s))) \<and>
   \<not> read (perm_other (FsPermissions (PString s))) \<and>
   \<not> write (perm_other (FsPermissions (PString s)))"
proof -
  have "FsPermissions (PString ''754'') =
     \<lparr>perm_user = \<lparr>read = False, write = False, execute = True\<rparr>,
      perm_group = \<lparr>read = False, write = False, execute = True\<rparr>,
      perm_other = \<lparr>read = False, write = False, execute = False\<rparr>\<rparr>"
    by (simp add: FsPermissions_def decode_perms_def perms_at_def Number_char_def)
  then show ?thesis
    by (simp add: FsPermissions_def decode_perms_def and_4_not_1 and_2_not_1)
qed

text \<open>
  Claim C2. A numeric mode should be decomposed into its three octal digits. The
  code decomposes the constant \<^verbatim>\<open>0o655\<close> instead of its argument, so any two numbers
  give the same permission set; \<^verbatim>\<open>0o770\<close>, the mode the fixture passes for \<^verbatim>\<open>/root\<close>,
  gives \<^verbatim>\<open>--x --x ---\<close>.
\<close>

theorem FsPermissions_number_ignored:
  "FsPermissions (PNumber n) = FsPermissions (PNumber m) \<and>
   FsPermissions (PNumber 504) =
     \<lparr>perm_user = \<lparr>read = False, write = False, execute = True\<rparr>,
      perm_group = \<lparr>read = False, write = False, execute = True\<rparr>,
      perm_other = \<lparr>read = False, write = False, execute = False\<rparr>\<rparr>"
  by (simp add: FsPermissions_def decode_perms_def perms_at_def)

text \<open>
  Claim C3. A file built without a permissions argument should get the default set
  of the file kind, \<^verbatim>\<open>rw-rw-r--\<close>. \<^verbatim>\<open>FsFile\<close> reads \<^verbatim>\<open>defaultPermissions["DIRECTORY"]\<close>
  as \<^verbatim>\<open>FsDirectory\<close> does: the file gets the directory default, which differs from
  the file default and lets the owner execute.
\<close>

theorem FsFile_default_permissions:
  "permissions (metadata (FsFile e now nm content owner_arg None)) = defaultPermissions DIRECTORY \<and>
   defaultPermissions DIRECTORY \<noteq> defaultPermissions FILE \<and>
   execute (perm_user (permissions (metadata (FsFile e now nm content owner_arg None))))"
  by (simp add: FsFile_def FsPermissions_def Let_def)

section \<open>The environment\<close>

text \<open>
  Claim C5, as amended. For a uid that is not in the identity registry \<^verbatim>\<open>Env\<close>
  returns no value to its caller: the read of \<^verbatim>\<open>user.name\<close> throws a TypeError.
\<close>

theorem Env_unknown_uid_throws:
  "fsUsers u = None \<Longrightarrow> Env u = Throws TypeError"
  by (simp add: Env_def)

text \<open>The uid 7 is not registered, and \<^verbatim>\<open>Env(7)\<close> throws.\<close>

theorem Env_unknown_uid_throws_witness:
  "fsUsers 7 = None \<and> Env 7 = Throws TypeError"
proof -
  have n: "fsUsers 7 = None" by (simp add: fsUsers_def)
  from n Env_unknown_uid_throws [OF n] show ?thesis by blast
qed

text \<open>
  Claim C5 as stated asks for an error value returned to the caller and no abort.
  The uid 42 is not registered, and \<^verbatim>\<open>Env(42)\<close> returns nothing: it throws a TypeError.
\<close>

theorem Env_unknown_uid_counterexample:
  "fsUsers 42 = None \<and> Env 42 = Throws TypeError"
  by (simp add: Env_def fsUsers_def)

section \<open>Canonicalization\<close>

lemma canonicalize_loop_plain:
  "\<forall>seg \<in> set segs. seg \<noteq> ''.'' \<and> seg \<noteq> ''..'' \<Longrightarrow> canonicalize_loop res segs = res @ segs"
  by (induction segs arbitrary: res) auto

lemma canonicalize_loop_set:
  "set (canonicalize_loop res segs) \<subseteq> set res \<union> (set segs - {''.'', ''..''})"
proof (induction segs arbitrary: res)
  case Nil
  then show ?case by simp
next
  case (Cons a segs)
  have "set (butlast res) \<subseteq> set res" by (meson in_set_butlastD subsetI)
  with Cons[of "butlast res"] Cons[of res] Cons[of "res @ [a]"] show ?case
    by auto
qed

lemma spec_stack_refines:
  "spec_stack st segs = Some st' \<Longrightarrow> canonicalize_loop (rev st) segs = rev st'"
proof (induction segs arbitrary: st)
  case Nil
  then show ?case by simp
next
  case (Cons seg segs)
  show ?case
  proof (cases "seg = ''..''")
    case True
    with Cons.prems obtain s below where st: "st = s # below" and run: "spec_stack below segs = Some st'"
      by (cases st) auto
    from Cons.IH [OF run] show ?thesis using True st by simp
  next
    case False
    show ?thesis
    proof (cases "seg = ''.''")
      case True
      with Cons.prems have "spec_stack st segs = Some st'" by simp
      from Cons.IH [OF this] show ?thesis using True by simp
    next
      case dot: False
      with False Cons.prems have "spec_stack (seg # st) segs = Some st'" by simp
      from Cons.IH [OF this] show ?thesis using False dot by simp
    qed
  qed
qed

lemma spec_absolute_eq: "spec_absolute s = js_startsWith s ''/''"
  by (cases s) (auto simp: js_startsWith_def)

lemma js_endsWith_separator: "js_endsWith a ''/'' = (a \<noteq> [] \<and> last a = CHR ''/'')"
  by (cases a rule: rev_cases) (auto simp: js_endsWith_def)

lemma spec_append_eq: "Path (spec_append (path wd) (path p)) = Path_append wd (Inr p)"
  by (simp add: Path_append_def Path_toString_def spec_append_def js_endsWith_separator)

lemma spec_segments_split:
  "spec_segments seg s =
     filter (\<lambda>v. v \<noteq> []) ((seg @ hd (js_split CHR ''/'' s)) # tl (js_split CHR ''/'' s))"
proof (induction s arbitrary: seg)
  case Nil
  then show ?case by simp
next
  case (Cons c s)
  obtain t ts where ts: "js_split CHR ''/'' s = t # ts"
    using js_split_not_Nil [of "CHR ''/''" s] by (cases "js_split CHR ''/'' s") auto
  from Cons [of "[]"] Cons [of "seg @ [c]"] ts show ?case by simp
qed

lemma spec_segments_eq: "spec_segments [] s = Path_parts (Path s)"
  using js_split_not_Nil [of "CHR ''/''" s]
  by (simp add: spec_segments_split Path_parts_def del: filter.simps)

lemma spec_render_eq: "spec_render segs = CHR ''/'' # js_join ''/'' segs"
  by (induction segs rule: spec_render.induct) auto

lemma Path_parts_separator:
  "Path_parts (Path (a @ CHR ''/'' # b)) = Path_parts (Path a) @ Path_parts (Path b)"
  by (simp add: Path_parts_def js_split_append)

lemma Path_parts_append:
  "Path_parts (Path_append wd (Inr p)) = Path_parts wd @ Path_parts p"
proof (cases "js_endsWith (path wd) ''/''")
  case True
  then obtain a where a: "path wd = a @ ''/''"
    by (cases "path wd" rule: rev_cases) (auto simp: js_endsWith_separator)
  have "Path_parts (Path (a @ CHR ''/'' # path p)) = Path_parts (Path a) @ Path_parts (Path (path p))"
    by (rule Path_parts_separator)
  moreover have "Path_parts wd = Path_parts (Path a)"
    using a Path_parts_separator [of a "[]"] by (simp add: Path_parts_def)
  ultimately show ?thesis using True a
    by (simp add: Path_append_def Path_toString_def)
next
  case False
  with Path_parts_separator [of "path wd" "path p"] show ?thesis
    by (simp add: Path_append_def Path_toString_def)
qed

text \<open>
  Claim C6. \<^verbatim>\<open>canonicalize\<close> implements the stack algorithm of the specification. The
  specification's steps are written out on their own: a relative path is appended
  onto the working directory with one separator between them, the result is cut
  into its non-empty segments, the segments go through the stack (\<open>..\<close> pops, \<open>.\<close>
  is skipped, anything else is pushed) and the stack is written out behind a leading
  separator. Whenever that ends with a stack, the code returns the same path. A
  relative path under an absolute working directory canonicalizes as the working
  directory, a separator and the path do. In particular \<^verbatim>\<open>/a/b/../c\<close> gives \<^verbatim>\<open>/a/c\<close>,
  and \<^verbatim>\<open>x\<close> under the working directory \<^verbatim>\<open>/home/nyx\<close> gives \<^verbatim>\<open>/home/nyx/x\<close>.
\<close>

theorem canonicalize_stack_algorithm:
  "(spec_canonicalize (path (cwd e)) (path p) = Some q \<longrightarrow> Path_canonicalize e p = Path q) \<and>
   (Path_isAbsolute (cwd e) \<longrightarrow> \<not> Path_isAbsolute p \<longrightarrow>
      Path_canonicalize e p = Path_canonicalize e (Path (path (cwd e) @ ''/'' @ path p))) \<and>
   Path_canonicalize e (Path ''/a/b/../c'') = Path ''/a/c'' \<and>
   (cwd e = Path ''/home/nyx'' \<longrightarrow> Path_canonicalize e (Path ''x'') = Path ''/home/nyx/x'')"
proof (intro conjI impI)
  assume "spec_canonicalize (path (cwd e)) (path p) = Some q"
  then obtain st where
    run: "spec_stack []
            (spec_segments [] (if spec_absolute (path p) then path p
                               else spec_append (path (cwd e)) (path p))) = Some st"
    and q: "q = spec_render (rev st)"
    by (auto simp: spec_canonicalize_def)
  have tmp: "spec_segments [] (if spec_absolute (path p) then path p
                               else spec_append (path (cwd e)) (path p)) =
             Path_parts (if \<not> Path_isAbsolute p then Path_append (cwd e) (Inr p) else p)"
    by (simp add: spec_segments_eq spec_absolute_eq Path_isAbsolute_def spec_append_eq)
  from spec_stack_refines [OF run] q tmp show "Path_canonicalize e p = Path q"
    by (simp add: Path_canonicalize_def Let_def spec_render_eq)
next
  assume a: "Path_isAbsolute (cwd e)" and r: "\<not> Path_isAbsolute p"
  from a have "Path_isAbsolute (Path (path (cwd e) @ ''/'' @ path p))"
    by (cases "path (cwd e)") (auto simp: Path_isAbsolute_def js_startsWith_def)
  moreover have "Path_parts (Path (path (cwd e) @ ''/'' @ path p)) = Path_parts (cwd e) @ Path_parts p"
    using Path_parts_separator [of "path (cwd e)" "path p"] by simp
  ultimately show "Path_canonicalize e p = Path_canonicalize e (Path (path (cwd e) @ ''/'' @ path p))"
    using r by (simp add: Path_canonicalize_def Let_def Path_parts_append)
next
  show "Path_canonicalize e (Path ''/a/b/../c'') = Path ''/a/c''"
    by (simp add: Path_canonicalize_def Path_isAbsolute_def js_startsWith_def Path_parts_def)
next
  assume "cwd e = Path ''/home/nyx''"
  then show "Path_canonicalize e (Path ''x'') = Path ''/home/nyx/x''"
    by (simp add: Path_canonicalize_def Path_isAbsolute_def js_startsWith_def Path_parts_def
        Path_append_def js_endsWith_def Path_toString_def)
qed

text \<open>
  The relative path \<^verbatim>\<open>../nyx/./x\<close> under \<^verbatim>\<open>/home/nyx\<close> and the relative path \<^verbatim>\<open>x\<close> under
  \<^verbatim>\<open>/tmp/\<close>, which ends with a separator: the specification's steps give
  \<^verbatim>\<open>/home/nyx/x\<close> and \<^verbatim>\<open>/tmp/x\<close>, and so does the code.
\<close>

theorem canonicalize_stack_algorithm_witness:
  "let e = \<lparr>cwd = Path ''/home/nyx'',
             env_user = \<lparr>name = ''nyx'', uid = 1000, gid = 1000, groups = []\<rparr>,
             env_vars = []\<rparr>;
       t = \<lparr>cwd = Path ''/tmp/'',
             env_user = \<lparr>name = ''nyx'', uid = 1000, gid = 1000, groups = []\<rparr>,
             env_vars = []\<rparr>
   in spec_canonicalize (path (cwd e)) (path (Path ''../nyx/./x'')) = Some ''/home/nyx/x'' \<and>
      Path_canonicalize e (Path ''../nyx/./x'') = Path ''/home/nyx/x'' \<and>
      spec_canonicalize (path (cwd t)) (path (Path ''x'')) = Some ''/tmp/x'' \<and>
      Path_canonicalize t (Path ''x'') = Path ''/tmp/x'' \<and>
      Path_isAbsolute (cwd t) \<and> \<not> Path_isAbsolute (Path ''x'') \<and>
      Path_canonicalize t (Path ''x'') = Path_canonicalize t (Path ''/tmp//x'') \<and>
      cwd e = Path ''/home/nyx'' \<and>
      Path_canonicalize e (Path ''x'') = Path ''/home/nyx/x''"
proof -
  let ?e = "\<lparr>cwd = Path ''/home/nyx'',
             env_user = \<lparr>name = ''nyx'', uid = 1000, gid = 1000, groups = []\<rparr>,
             env_vars = []\<rparr>"
  let ?t = "\<lparr>cwd = Path ''/tmp/'',
             env_user = \<lparr>name = ''nyx'', uid = 1000, gid = 1000, groups = []\<rparr>,
             env_vars = []\<rparr>"
  have s1: "spec_canonicalize (path (cwd ?e)) (path (Path ''../nyx/./x'')) = Some ''/home/nyx/x''"
    by (simp add: spec_canonicalize_def spec_append_def)
  have s2: "spec_canonicalize (path (cwd ?t)) (path (Path ''x'')) = Some ''/tmp/x''"
    by (simp add: spec_canonicalize_def spec_append_def)
  have a: "Path_isAbsolute (cwd ?t)" by (simp add: Path_isAbsolute_def js_startsWith_def)
  have r: "\<not> Path_isAbsolute (Path ''x'')" by (simp add: Path_isAbsolute_def js_startsWith_def)
  have c: "cwd ?e = Path ''/home/nyx''" by simp
  note t1 = canonicalize_stack_algorithm [of ?e "Path ''../nyx/./x''" "''/home/nyx/x''"]
  note t2 = canonicalize_stack_algorithm [of ?t "Path ''x''" "''/tmp/x''"]
  from t1 s1 have c1: "Path_canonicalize ?e (Path ''../nyx/./x'') = Path ''/home/nyx/x''"
    by (elim conjE) (erule (1) mp)
  from t2 s2 have c2: "Path_canonicalize ?t (Path ''x'') = Path ''/tmp/x''"
    by (elim conjE) (erule (1) mp)
  from t2 [THEN conjunct2, THEN conjunct1, rule_format, OF a r]
  have c3: "Path_canonicalize ?t (Path ''x'') = Path_canonicalize ?t (Path ''/tmp//x'')"
    by simp
  from t1 [THEN conjunct2, THEN conjunct2, THEN conjunct2, rule_format, OF c]
  have c4: "Path_canonicalize ?e (Path ''x'') = Path ''/home/nyx/x''" .
  show ?thesis unfolding Let_def by (intro conjI s1 c1 s2 c2 a r c3 c c4)
qed

lemma Path_parts_canonical:
  assumes "is_canonical (path p)"
  shows "path p = ''/'' @ js_join ''/'' (Path_parts p)"
    and "\<forall>seg \<in> set (Path_parts p). seg \<noteq> ''.'' \<and> seg \<noteq> ''..''"
proof -
  from assms obtain rest where p: "path p = CHR ''/'' # rest"
    and rest: "rest = [] \<or> list_all (\<lambda>seg. seg \<noteq> [] \<and> seg \<noteq> ''.'' \<and> seg \<noteq> ''..'') (js_split CHR ''/'' rest)"
    by (auto simp: is_canonical_def split: list.splits)
  show "path p = ''/'' @ js_join ''/'' (Path_parts p)"
  proof (cases "rest = []")
    case True
    with p show ?thesis by (simp add: Path_parts_def)
  next
    case False
    with rest have "filter (\<lambda>v. v \<noteq> []) (js_split CHR ''/'' rest) = js_split CHR ''/'' rest"
      by (auto simp: list_all_iff filter_id_conv)
    with p show ?thesis by (simp add: Path_parts_def js_join_split)
  qed
  show "\<forall>seg \<in> set (Path_parts p). seg \<noteq> ''.'' \<and> seg \<noteq> ''..''"
  proof (cases "rest = []")
    case True
    with p show ?thesis by (simp add: Path_parts_def)
  next
    case False
    with rest p show ?thesis by (auto simp: Path_parts_def list_all_iff)
  qed
qed

lemma is_canonical_absolute: "is_canonical (path p) \<Longrightarrow> Path_isAbsolute p"
  by (auto simp: is_canonical_def Path_isAbsolute_def js_startsWith_def split: list.splits)

text \<open>
  Claim C7. \<^verbatim>\<open>canonicalize\<close> returns an absolute path that is already in canonical form
  (no empty segment, no \<open>.\<close>, no \<open>..\<close>) unchanged, whatever the working directory.
\<close>

theorem canonicalize_idempotent:
  "is_canonical (path p) \<Longrightarrow> Path_canonicalize e p = p"
proof -
  assume c: "is_canonical (path p)"
  have "canonicalize_loop [] (Path_parts p) = Path_parts p"
    using canonicalize_loop_plain [OF Path_parts_canonical(2) [OF c], of "[]"] by simp
  then have "Path_canonicalize e p = Path (''/'' @ js_join ''/'' (Path_parts p))"
    using is_canonical_absolute [OF c] by (simp add: Path_canonicalize_def)
  also have "\<dots> = Path (path p)" using Path_parts_canonical(1) [OF c] by simp
  finally show ?thesis by simp
qed

text \<open>The canonical path \<^verbatim>\<open>/home/nyx/x\<close> is returned as it is.\<close>

theorem canonicalize_idempotent_witness:
  "is_canonical (path (Path ''/home/nyx/x'')) \<and>
   Path_canonicalize \<lparr>cwd = Path ''/tmp'', env_user = \<lparr>name = ''nyx'', uid = 1000, gid = 1000, groups = []\<rparr>, env_vars = []\<rparr>
     (Path ''/home/nyx/x'') = Path ''/home/nyx/x''"
proof -
  have c: "is_canonical (path (Path ''/home/nyx/x''))"
    by (simp add: is_canonical_def)
  from c canonicalize_idempotent [OF c] show ?thesis by blast
qed

lemma Path_parts_segments:
  "seg \<in> set (Path_parts p) \<Longrightarrow> seg \<noteq> [] \<and> CHR ''/'' \<notin> set seg"
  by (auto simp: Path_parts_def dest: js_split_no_sep)

lemma join_canonical:
  assumes "\<forall>seg \<in> set res. seg \<noteq> [] \<and> CHR ''/'' \<notin> set seg \<and> seg \<noteq> ''.'' \<and> seg \<noteq> ''..''"
  shows "is_canonical (''/'' @ js_join ''/'' res)"
proof (cases "res = []")
  case True
  then show ?thesis by (simp add: is_canonical_def)
next
  case False
  with assms have "js_split CHR ''/'' (js_join ''/'' res) = res"
    using js_split_join [of res "CHR ''/''"] by auto
  with assms show ?thesis by (auto simp: is_canonical_def list_all_iff)
qed

lemma canonicalize_loop_canonical:
  "is_canonical (''/'' @ js_join ''/'' (canonicalize_loop [] (Path_parts p)))"
proof (rule join_canonical, rule ballI)
  fix seg assume "seg \<in> set (canonicalize_loop [] (Path_parts p))"
  with canonicalize_loop_set [of "[]" "Path_parts p"]
  have "seg \<in> set (Path_parts p)" and "seg \<noteq> ''.''" and "seg \<noteq> ''..''" by auto
  with Path_parts_segments [of seg p]
  show "seg \<noteq> [] \<and> CHR ''/'' \<notin> set seg \<and> seg \<noteq> ''.'' \<and> seg \<noteq> ''..''" by simp
qed

lemma Path_canonicalize_canonical: "is_canonical (path (Path_canonicalize e p))"
  using canonicalize_loop_canonical [of p] canonicalize_loop_canonical [of "Path_append (cwd e) (Inr p)"]
  by (simp add: Path_canonicalize_def Let_def)

lemma Path_parts_dotdot:
  "Path_isAbsolute p \<Longrightarrow> Path_parts (Path (''/..'' @ path p)) = ''..'' # Path_parts p"
proof -
  assume "Path_isAbsolute p"
  then obtain rest where p: "path p = CHR ''/'' # rest"
    by (cases "path p") (auto simp: Path_isAbsolute_def js_startsWith_def)
  then show ?thesis by (simp add: Path_parts_def)
qed

lemma canonicalize_loop_append:
  "canonicalize_loop res (a @ b) = canonicalize_loop (canonicalize_loop res a) b"
  by (induction a arbitrary: res) auto

lemma canonicalize_loop_length:
  "length (canonicalize_loop res segs) \<le> length res + length segs"
proof (induction segs arbitrary: res)
  case Nil
  then show ?case by simp
next
  case (Cons seg segs)
  from Cons [of "butlast res"] Cons [of res] Cons [of "res @ [seg]"] show ?case
    by auto
qed

lemma canonicalize_loop_dotdots:
  "canonicalize_loop res (replicate n ''..'') = take (length res - n) res"
proof (induction n arbitrary: res)
  case 0
  then show ?case by simp
next
  case (Suc n)
  have "take (length res - Suc n) (butlast res) = take (length res - Suc n) res"
    by (simp add: butlast_conv_take)
  with Suc [of "butlast res"] show ?case by simp
qed

lemma Path_parts_dotdots:
  "Path_parts (Path (a @ concat (replicate n ''/..''))) = Path_parts (Path a) @ replicate n ''..''"
proof (induction n arbitrary: a)
  case 0
  then show ?case by simp
next
  case (Suc n)
  have "Path_parts (Path (a @ ''/..'')) = Path_parts (Path a) @ [''..'']"
    using Path_parts_separator [of a "''..''"] by (simp add: Path_parts_def)
  with Suc [of "a @ ''/..''"] show ?case
    by (simp add: replicate_append_same)
qed

lemma canonicalize_loop_climbs_out:
  "length segs \<le> n \<Longrightarrow> canonicalize_loop [] (segs @ replicate n ''..'') = []"
  using canonicalize_loop_length [of "[]" segs]
  by (simp add: canonicalize_loop_append canonicalize_loop_dotdots)

text \<open>
  Claim C10. For every path and working directory the result of \<^verbatim>\<open>canonicalize\<close>
  begins with the separator, so it is absolute, and it is in canonical form. A \<open>..\<close>
  pops the last output segment when there is one and is ignored when there is none:
  \<open>n\<close> of them in a row leave what the output holds above its last \<open>n\<close> segments,
  and nothing when it holds \<open>n\<close> or fewer. So putting \<^verbatim>\<open>/..\<close> in front of an absolute
  path does not change the result, and a path, absolute or relative, followed by at
  least as many \<^verbatim>\<open>/..\<close> as it and the working directory have segments ends at the
  root. In particular \<^verbatim>\<open>/..\<close> gives \<^verbatim>\<open>/\<close>, \<^verbatim>\<open>/../a\<close> gives \<^verbatim>\<open>/a\<close>, \<^verbatim>\<open>/a/../../b\<close> gives \<^verbatim>\<open>/b\<close>,
  and \<^verbatim>\<open>../../../..\<close> under \<^verbatim>\<open>/home/nyx\<close> gives \<^verbatim>\<open>/\<close>.
\<close>

theorem canonicalize_absolute_clamped:
  "Path_isAbsolute (Path_canonicalize e p) \<and>
   is_canonical (path (Path_canonicalize e p)) \<and>
   canonicalize_loop [] (''..'' # segs) = canonicalize_loop [] segs \<and>
   canonicalize_loop res (replicate n ''..'') = take (length res - n) res \<and>
   (Path_isAbsolute p \<longrightarrow> Path_canonicalize e (Path (''/..'' @ path p)) = Path_canonicalize e p) \<and>
   (length (Path_parts (cwd e)) + length (Path_parts p) \<le> n \<longrightarrow>
      Path_canonicalize e (Path (path p @ concat (replicate n ''/..''))) = Path ''/'') \<and>
   Path_canonicalize e (Path ''/..'') = Path ''/'' \<and>
   Path_canonicalize e (Path ''/../a'') = Path ''/a'' \<and>
   Path_canonicalize e (Path ''/a/../../b'') = Path ''/b'' \<and>
   (cwd e = Path ''/home/nyx'' \<longrightarrow> Path_canonicalize e (Path ''../../../..'') = Path ''/'')"
proof (intro conjI impI)
  show "Path_isAbsolute (Path_canonicalize e p)"
    by (simp add: Path_canonicalize_def Let_def Path_isAbsolute_def js_startsWith_def)
  show "is_canonical (path (Path_canonicalize e p))"
    by (rule Path_canonicalize_canonical)
  show "canonicalize_loop [] (''..'' # segs) = canonicalize_loop [] segs"
    by simp
  show "canonicalize_loop res (replicate n ''..'') = take (length res - n) res"
    by (rule canonicalize_loop_dotdots)
  show "Path_canonicalize e (Path ''/..'') = Path ''/''"
    by (simp add: Path_canonicalize_def Path_isAbsolute_def js_startsWith_def Path_parts_def)
  show "Path_canonicalize e (Path ''/../a'') = Path ''/a''"
    by (simp add: Path_canonicalize_def Path_isAbsolute_def js_startsWith_def Path_parts_def)
  show "Path_canonicalize e (Path ''/a/../../b'') = Path ''/b''"
    by (simp add: Path_canonicalize_def Path_isAbsolute_def js_startsWith_def Path_parts_def)
next
  assume a: "Path_isAbsolute p"
  have "Path_isAbsolute (Path (''/..'' @ path p))"
    by (simp add: Path_isAbsolute_def js_startsWith_def)
  with a Path_parts_dotdot [OF a] show "Path_canonicalize e (Path (''/..'' @ path p)) = Path_canonicalize e p"
    by (simp add: Path_canonicalize_def Let_def)
next
  assume n: "length (Path_parts (cwd e)) + length (Path_parts p) \<le> n"
  let ?s = "Path (path p @ concat (replicate n ''/..''))"
  have parts: "Path_parts ?s = Path_parts p @ replicate n ''..''"
    using Path_parts_dotdots [of "path p" n] by simp
  show "Path_canonicalize e ?s = Path ''/''"
  proof (cases "Path_isAbsolute ?s")
    case True
    from n have "canonicalize_loop [] (Path_parts p @ replicate n ''..'') = []"
      by (intro canonicalize_loop_climbs_out) simp
    with True parts show ?thesis by (simp add: Path_canonicalize_def Let_def)
  next
    case False
    from n have "canonicalize_loop [] ((Path_parts (cwd e) @ Path_parts p) @ replicate n ''..'') = []"
      by (intro canonicalize_loop_climbs_out) simp
    with False parts show ?thesis
      by (simp add: Path_canonicalize_def Let_def Path_parts_append)
  qed
next
  assume "cwd e = Path ''/home/nyx''"
  then show "Path_canonicalize e (Path ''../../../..'') = Path ''/''"
    by (simp add: Path_canonicalize_def Path_isAbsolute_def js_startsWith_def Path_parts_def
        Path_append_def js_endsWith_def Path_toString_def)
qed

text \<open>
  \<^verbatim>\<open>/../a\<close> is absolute, so \<^verbatim>\<open>/../../a\<close> canonicalizes as it does, to \<^verbatim>\<open>/a\<close>. Under
  \<^verbatim>\<open>/home/nyx\<close> the relative path \<^verbatim>\<open>x/y\<close> and the working directory have four
  segments, so \<^verbatim>\<open>x/y\<close> followed by five \<^verbatim>\<open>/..\<close> ends at the root, and so does
  \<^verbatim>\<open>../../../..\<close>.
\<close>

theorem canonicalize_absolute_clamped_witness:
  "let e = \<lparr>cwd = Path ''/home/nyx'',
             env_user = \<lparr>name = ''nyx'', uid = 1000, gid = 1000, groups = []\<rparr>,
             env_vars = []\<rparr>
   in Path_isAbsolute (Path ''/../a'') \<and>
      Path_canonicalize e (Path ''/../../a'') = Path ''/a'' \<and>
      length (Path_parts (cwd e)) + length (Path_parts (Path ''x/y'')) \<le> 5 \<and>
      Path_canonicalize e (Path ''x/y/../../../../..'') = Path ''/'' \<and>
      cwd e = Path ''/home/nyx'' \<and>
      Path_canonicalize e (Path ''../../../..'') = Path ''/''"
proof -
  let ?e = "\<lparr>cwd = Path ''/home/nyx'',
             env_user = \<lparr>name = ''nyx'', uid = 1000, gid = 1000, groups = []\<rparr>,
             env_vars = []\<rparr>"
  have a: "Path_isAbsolute (Path ''/../a'')"
    by (simp add: Path_isAbsolute_def js_startsWith_def)
  have n: "length (Path_parts (cwd ?e)) + length (Path_parts (Path ''x/y'')) \<le> 5"
    by (simp add: Path_parts_def)
  have c: "cwd ?e = Path ''/home/nyx''" by simp
  note t1 = canonicalize_absolute_clamped [of ?e "Path ''/../a''" "[]" "[]" 0]
  note t2 = canonicalize_absolute_clamped [of ?e "Path ''x/y''" "[]" "[]" 5]
  from t1 a have c1: "Path_canonicalize ?e (Path ''/../../a'') = Path ''/a''" by simp
  from t2 [THEN conjunct2, THEN conjunct2, THEN conjunct2, THEN conjunct2, THEN conjunct2,
      THEN conjunct1, rule_format, OF n]
  have c2: "Path_canonicalize ?e (Path ''x/y/../../../../..'') = Path ''/''"
    by (simp add: numeral_eq_Suc)
  from t2 c have c3: "Path_canonicalize ?e (Path ''../../../..'') = Path ''/''"
    by (elim conjE) (erule (1) mp)
  show ?thesis unfolding Let_def by (intro conjI a c1 n c2 c c3)
qed

section \<open>Resolution\<close>

declare resolve_loop.simps [simp del]

lemma resolve_loop_end: "resolve_loop parts (length parts) node = Some node"
  by (subst resolve_loop.simps) simp

lemma resolve_loop_file:
  "i < length parts \<Longrightarrow> is_file node \<Longrightarrow> resolve_loop parts i node = None"
  by (subst resolve_loop.simps) (cases node; simp)

lemma resolve_loop_append:
  "i \<le> length pre \<Longrightarrow> resolve_loop pre i node = Some n \<Longrightarrow>
   resolve_loop (pre @ rest) i node = resolve_loop (pre @ rest) (length pre) n"
proof (induction pre i node rule: resolve_loop.induct)
  case (1 parts i currentNode)
  show ?case
  proof (cases "i = length parts")
    case True
    with "1.prems" show ?thesis by (simp add: resolve_loop_end)
  next
    case False
    with "1.prems" have lt: "i < length parts" by simp
    from "1.prems"(2) lt obtain m contents node where
      dir: "currentNode = Directory m contents"
      and found: "find (\<lambda>node. node_name (metadata node) = Some (parts ! i)) contents = Some node"
      and rest: "resolve_loop parts (i + 1) node = Some n"
      by (subst (asm) resolve_loop.simps) (auto split: FsNode.splits option.splits)
    from lt have "resolve_loop (parts @ rest) (i + 1) node = resolve_loop (parts @ rest) (length parts) n"
      using "1.IH" [OF _ False dir found _ rest] by simp
    with lt dir found show ?thesis
      by (subst resolve_loop.simps) (simp add: nth_append)
  qed
qed

text \<open>
  Claim C8. When the loop of \<^verbatim>\<open>resolve\<close>, having consumed the first segments \<open>pre\<close> of
  a path, stands at a file and at least one segment \<open>rest\<close> is left, the path is
  not found: resolution does not descend through a file.
\<close>

theorem resolve_through_file:
  assumes "Path_parts p = pre @ rest" and "rest \<noteq> []"
    and "resolve_loop pre 0 (root fsys) = Some n" and "is_file n"
  shows "Fs_resolve fsys p = None"
proof -
  from assms(3) have "resolve_loop (pre @ rest) 0 (root fsys) =
      resolve_loop (pre @ rest) (length pre) n"
    by (intro resolve_loop_append) simp_all
  also from assms(2,4) have "\<dots> = None"
    by (intro resolve_loop_file) simp_all
  finally show ?thesis using assms(1) by (simp add: Fs_resolve_def)
qed

text \<open>
  In the fixture tree the segments \<^verbatim>\<open>home\<close>, \<^verbatim>\<open>nyx\<close>, \<^verbatim>\<open>user.txt\<close> lead to a file, so
  \<^verbatim>\<open>/home/nyx/user.txt/../user.txt\<close>, which \<^verbatim>\<open>resolve\<close> walks segment by segment without
  canonicalizing, is not found.
\<close>

theorem resolve_through_file_witness:
  "let e = \<lparr>cwd = Path ''/home/nyx'',
             env_user = \<lparr>name = ''nyx'', uid = 1000, gid = 1000, groups = []\<rparr>,
             env_vars = [(''PATH'', ''/bin'')]\<rparr>;
       f = \<lparr>root = fs_tree e 0\<rparr>
   in Path_parts (Path ''/home/nyx/user.txt/../user.txt'') =
        [''home'', ''nyx'', ''user.txt''] @ [''..'', ''user.txt''] \<and>
      resolve_loop [''home'', ''nyx'', ''user.txt''] 0 (root f) =
        Some (FsFile e 0 (Some ''user.txt'') (Some ''Hello World!'') None None) \<and>
      is_file (FsFile e 0 (Some ''user.txt'') (Some ''Hello World!'') None None) \<and>
      Fs_resolve f (Path ''/home/nyx/user.txt/../user.txt'') = None"
proof -
  let ?e = "\<lparr>cwd = Path ''/home/nyx'',
             env_user = \<lparr>name = ''nyx'', uid = 1000, gid = 1000, groups = []\<rparr>,
             env_vars = [(''PATH'', ''/bin'')]\<rparr>"
  let ?f = "\<lparr>root = fs_tree ?e 0\<rparr>"
  let ?n = "FsFile ?e 0 (Some ''user.txt'') (Some ''Hello World!'') None None"
  have a: "Path_parts (Path ''/home/nyx/user.txt/../user.txt'') =
        [''home'', ''nyx'', ''user.txt''] @ [''..'', ''user.txt'']"
    by (simp add: Path_parts_def)
  have b: "[''..'', ''user.txt''] \<noteq> []" by simp
  have c: "resolve_loop [''home'', ''nyx'', ''user.txt''] 0 (root ?f) = Some ?n" by code_simp
  have d: "is_file ?n" by code_simp
  note r = resolve_through_file [OF a b c d]
  show ?thesis unfolding Let_def by (intro conjI a c d r)
qed

section \<open>The scanner\<close>

declare tokenize_loop.simps [simp del]

lemma js_index_prev: "i < length v \<Longrightarrow> js_index v (int (i + 1) - 1) = Some (v ! i)"
  by (simp add: js_index_def)

lemma tokenize_loop_spec_scan:
  "i \<le> length v \<Longrightarrow>
   tokenize_loop v i part res quoted = res @ spec_scan (js_index v (int i - 1)) quoted part (drop i v)"
proof (induction v i part res quoted rule: tokenize_loop.induct)
  case (1 v i part res quoted)
  show ?case
  proof (cases "i < length v")
    case False
    with "1.prems" show ?thesis by (subst tokenize_loop.simps) simp
  next
    case True
    then have d: "drop i v = v ! i # drop (i + 1) v"
      by (simp add: Cons_nth_drop_Suc)
    from True have le: "i + 1 \<le> length v" by simp
    note prev = js_index_prev [OF True]
    show ?thesis
    proof (cases "v ! i = CHR 0x22 \<and> js_index v (int i - 1) \<noteq> Some (CHR 0x5C)")
      case quote: True
      from "1.IH"(1) [OF True quote le] True quote d prev show ?thesis
        by (subst tokenize_loop.simps) simp
    next
      case noquote: False
      show ?thesis
      proof (cases "v ! i = CHR '' '' \<and> quoted \<noteq> True")
        case space: True
        from "1.IH"(2) [OF True noquote space le] True noquote space d prev show ?thesis
          by (subst tokenize_loop.simps) auto
      next
        case nospace: False
        from "1.IH"(3) [OF True noquote nospace le] True noquote nospace d prev show ?thesis
          by (subst tokenize_loop.simps) auto
      qed
    qed
  qed
qed

lemma tokenize_spec_scan: "tokenize v = spec_scan None False [] v"
  using tokenize_loop_spec_scan [of 0 v "[]" "[]" False]
  by (simp add: tokenize_def js_index_def)

lemma spec_scan_not_Nil: "spec_scan prev quoted tok cs \<noteq> []"
  by (induction cs arbitrary: prev quoted tok) auto

lemma spec_scan_no_quote:
  "CHR 0x5C \<notin> set cs \<Longrightarrow> prev \<noteq> Some (CHR 0x5C) \<Longrightarrow> CHR 0x22 \<notin> set tok \<Longrightarrow>
   t \<in> set (spec_scan prev quoted tok cs) \<Longrightarrow> CHR 0x22 \<notin> set t"
proof (induction cs arbitrary: prev quoted tok)
  case Nil
  then show ?case by simp
next
  case (Cons c cs)
  from Cons.prems(1) have c: "Some c \<noteq> Some (CHR 0x5C)" and cs: "CHR 0x5C \<notin> set cs" by auto
  show ?case
  proof (cases "c = CHR 0x22")
    case True
    with Cons.prems have "t \<in> set (spec_scan (Some c) (\<not> quoted) tok cs)" by simp
    from Cons.IH [OF cs c Cons.prems(3) this] show ?thesis .
  next
    case False
    show ?thesis
    proof (cases "c = CHR '' '' \<and> \<not> quoted")
      case True
      with False Cons.prems(4) have "t = tok \<or> t \<in> set (spec_scan (Some c) quoted [] cs)" by auto
      then show ?thesis
      proof
        assume "t = tok" with Cons.prems(3) show ?thesis by simp
      next
        assume "t \<in> set (spec_scan (Some c) quoted [] cs)"
        from Cons.IH [OF cs c _ this] show ?thesis by simp
      qed
    next
      case nospace: False
      with False Cons.prems(4) have "t \<in> set (spec_scan (Some c) quoted (tok @ [c]) cs)" by auto
      moreover from False Cons.prems(3) have "CHR 0x22 \<notin> set (tok @ [c])" by simp
      ultimately show ?thesis using Cons.IH [OF cs c] by blast
    qed
  qed
qed

lemma spec_scan_split:
  "CHR 0x22 \<notin> set cs \<Longrightarrow>
   spec_scan prev False tok cs = (tok @ hd (js_split CHR '' '' cs)) # tl (js_split CHR '' '' cs)"
  by (induction cs arbitrary: prev tok) (auto simp: js_split_not_Nil js_split_Cons simp del: js_split.simps(2))

lemma spec_scan_escaped:
  "quotes_escaped prev cs \<Longrightarrow>
   spec_scan prev False tok cs = (tok @ hd (js_split CHR '' '' cs)) # tl (js_split CHR '' '' cs)"
  by (induction cs arbitrary: prev tok)
     (auto simp: js_split_not_Nil js_split_Cons simp del: js_split.simps(2))

text \<open>
  Claim C9. The scanner of \<^verbatim>\<open>handleCommand\<close> is the scanner the specification words:
  an unescaped double quote toggles the quoted mode and is dropped, a space outside
  the quoted mode ends the token, a quote right behind a backslash does not toggle,
  and the last token is always emitted, so the result is never empty and the empty
  line gives one empty token. Hence no token of a line without backslashes holds a
  double quote; a line without double quotes, or one whose double quotes all stand
  behind a backslash, is split at every space; \<^verbatim>\<open>cat "hello world" x\<close> gives the
  three tokens \<^verbatim>\<open>cat\<close>, \<^verbatim>\<open>hello world\<close> and \<^verbatim>\<open>x\<close>; and in \<^verbatim>\<open>a\"b c\<close> the escaped quote
  stays in its token, backslash included, and the space after it still ends the
  token.
\<close>

theorem tokenize_honors_quotes:
  \<open>tokenize v = spec_scan None False [] v \<and>
   tokenize v \<noteq> [] \<and>
   tokenize [] = [[]] \<and>
   (CHR 0x5C \<notin> set v \<longrightarrow> (\<forall>t \<in> set (tokenize v). CHR 0x22 \<notin> set t)) \<and>
   (CHR 0x22 \<notin> set v \<longrightarrow> tokenize v = js_split CHR '' '' v) \<and>
   (quotes_escaped None v \<longrightarrow> tokenize v = js_split CHR '' '' v) \<and>
   tokenize ''cat "hello world" x'' = [''cat'', ''hello world'', ''x''] \<and>
   tokenize (''a'' @ [CHR 0x5C, CHR 0x22] @ ''b c'') = [''a'' @ [CHR 0x5C, CHR 0x22] @ ''b'', ''c'']\<close>
proof (intro conjI impI ballI)
  show "tokenize v = spec_scan None False [] v" by (rule tokenize_spec_scan)
  show "tokenize v \<noteq> []" by (simp add: tokenize_spec_scan spec_scan_not_Nil)
  show "tokenize [] = [[]]" by (simp add: tokenize_spec_scan)
  show \<open>tokenize ''cat "hello world" x'' = [''cat'', ''hello world'', ''x'']\<close>
    by (simp add: tokenize_spec_scan)
  show "tokenize (''a'' @ [CHR 0x5C, CHR 0x22] @ ''b c'') = [''a'' @ [CHR 0x5C, CHR 0x22] @ ''b'', ''c'']"
    by (simp add: tokenize_spec_scan)
next
  fix t assume "CHR 0x5C \<notin> set v" and "t \<in> set (tokenize v)"
  then show "CHR 0x22 \<notin> set t"
    using spec_scan_no_quote [of v None "[]" t False] by (simp add: tokenize_spec_scan)
next
  assume "CHR 0x22 \<notin> set v"
  then show "tokenize v = js_split CHR '' '' v"
    using js_split_not_Nil [of "CHR '' ''" v] by (simp add: tokenize_spec_scan spec_scan_split)
next
  assume "quotes_escaped None v"
  then show "tokenize v = js_split CHR '' '' v"
    using js_split_not_Nil [of "CHR '' ''" v] by (simp add: tokenize_spec_scan spec_scan_escaped)
qed

text \<open>
  A line with quotes and no backslash, a line with doubled and trailing spaces and
  no quote, and a line whose only quote is escaped.
\<close>

theorem tokenize_honors_quotes_witness:
  \<open>CHR 0x5C \<notin> set ''cat "hello world" x'' \<and>
   list_all (\<lambda>t. CHR 0x22 \<notin> set t) (tokenize ''cat "hello world" x'') \<and>
   CHR 0x22 \<notin> set ''ls  -l '' \<and>
   tokenize ''ls  -l '' = [''ls'', [], ''-l'', []] \<and>
   quotes_escaped None (''say '' @ [CHR 0x5C, CHR 0x22] @ ''a b'') \<and>
   tokenize (''say '' @ [CHR 0x5C, CHR 0x22] @ ''a b'') = [''say'', [CHR 0x5C, CHR 0x22] @ ''a'', ''b'']\<close>
proof -
  have a: \<open>CHR 0x5C \<notin> set ''cat "hello world" x''\<close> by simp
  have b: "CHR 0x22 \<notin> set ''ls  -l ''" by simp
  have e: "quotes_escaped None (''say '' @ [CHR 0x5C, CHR 0x22] @ ''a b'')" by simp
  note t1 = tokenize_honors_quotes [of \<open>''cat "hello world" x''\<close>]
  note t2 = tokenize_honors_quotes [of "''ls  -l ''"]
  note t3 = tokenize_honors_quotes [of "''say '' @ [CHR 0x5C, CHR 0x22] @ ''a b''"]
  from t1 a have "\<forall>t \<in> set (tokenize ''cat \"hello world\" x''). CHR 0x22 \<notin> set t"
    by (elim conjE) (erule (1) mp)
  then have c: "list_all (\<lambda>t. CHR 0x22 \<notin> set t) (tokenize ''cat \"hello world\" x'')"
    by (simp only: list_all_iff)
  from t2 b have "tokenize ''ls  -l '' = js_split CHR '' '' ''ls  -l ''"
    by (elim conjE) (erule (1) mp)
  then have d: "tokenize ''ls  -l '' = [''ls'', [], ''-l'', []]" by simp
  from t3 e have "tokenize (''say '' @ [CHR 0x5C, CHR 0x22] @ ''a b'') =
      js_split CHR '' '' (''say '' @ [CHR 0x5C, CHR 0x22] @ ''a b'')"
    by (elim conjE) (erule (1) mp)
  then have f: "tokenize (''say '' @ [CHR 0x5C, CHR 0x22] @ ''a b'') = [''say'', [CHR 0x5C, CHR 0x22] @ ''a'', ''b'']"
    by simp
  show ?thesis by (intro conjI a b c d e f)
qed

section \<open>Dispatch\<close>

lemma path_loop_not_found:
  "\<not> list_ex (holds_command fsys cmd) ps \<Longrightarrow>
   path_loop fsys throws cmd args out ps = (out, Returns Undefined)"
proof (induction ps)
  case Nil
  then show ?case by simp
next
  case (Cons d ps)
  then have here: "\<not> holds_command fsys cmd d"
    and rest: "path_loop fsys throws cmd args out ps = (out, Returns Undefined)"
    by simp_all
  show ?case
  proof (cases "Fs_resolve fsys (Path d)")
    case None
    with rest show ?thesis by simp
  next
    case (Some node)
    show ?thesis
    proof (cases node)
      case (File m c)
      with Some rest show ?thesis by simp
    next
      case (Directory m contents)
      show ?thesis
      proof (cases "find (\<lambda>f. node_name (metadata f) = Some cmd) contents")
        case None
        with Some Directory show ?thesis by simp
      next
        case found: (Some exe)
        then have "exe \<in> set contents" and "node_name (metadata exe) = Some cmd"
          by (auto simp: find_Some_iff)
        with here Some Directory have "\<not> is_file exe"
          by (auto simp: holds_command_def list_ex_iff)
        then obtain m' ns where "exe = Directory m' ns" by (cases exe) auto
        with Some Directory found show ?thesis by simp
      qed
    qed
  qed
qed

text \<open>
  Claim C4, as amended. When \<^verbatim>\<open>PATH\<close> is set and no directory it lists holds a file
  named as the command, \<^verbatim>\<open>handleCommand\<close> returns \<^verbatim>\<open>undefined\<close> and has logged and
  evaluated nothing, whatever the evaluation of file contents would do.
\<close>

theorem handleCommand_not_found:
  assumes "map_of (env_vars e) ''PATH'' = Some PATH"
    and "\<not> list_ex (holds_command fsys (hd (tokenize v))) (js_split CHR '':'' PATH)"
  shows "handleCommand fsys e throws v = ([], Returns Undefined)"
  using assms by (simp add: handleCommand_def Let_def path_loop_not_found)

text \<open>
  The fixture tree with \<^verbatim>\<open>PATH=/sbin:/bin:/home\<close>: \<^verbatim>\<open>/sbin\<close> does not exist, \<^verbatim>\<open>/bin\<close> holds
  only \<^verbatim>\<open>tree\<close>, and \<^verbatim>\<open>/home\<close> holds \<^verbatim>\<open>nyx\<close>, which is a directory.
\<close>

theorem handleCommand_not_found_witness:
  "let e = \<lparr>cwd = Path ''/home/nyx'',
             env_user = \<lparr>name = ''nyx'', uid = 1000, gid = 1000, groups = []\<rparr>,
             env_vars = [(''PATH'', ''/sbin:/bin:/home'')]\<rparr>;
       f = \<lparr>root = fs_tree e 0\<rparr>
   in map_of (env_vars e) ''PATH'' = Some ''/sbin:/bin:/home'' \<and>
      \<not> list_ex (holds_command f (hd (tokenize ''nyx -a''))) (js_split CHR '':'' ''/sbin:/bin:/home'') \<and>
      handleCommand f e Map.empty ''nyx -a'' = ([], Returns Undefined)"
proof -
  let ?e = "\<lparr>cwd = Path ''/home/nyx'',
             env_user = \<lparr>name = ''nyx'', uid = 1000, gid = 1000, groups = []\<rparr>,
             env_vars = [(''PATH'', ''/sbin:/bin:/home'')]\<rparr>"
  let ?f = "\<lparr>root = fs_tree ?e 0\<rparr>"
  have a: "map_of (env_vars ?e) ''PATH'' = Some ''/sbin:/bin:/home''" by simp
  have b: "\<not> list_ex (holds_command ?f (hd (tokenize ''nyx -a''))) (js_split CHR '':'' ''/sbin:/bin:/home'')"
    by code_simp
  note r = handleCommand_not_found [OF a b, of Map.empty]
  show ?thesis unfolding Let_def by (intro conjI a b r)
qed

text \<open>
  Claim C4 as stated asks for a CommandNotFound result in place of an undefined
  outcome. After the module has loaded, \<^verbatim>\<open>nosuchcmd\<close> at the prompt makes
  \<^verbatim>\<open>handleCommand\<close> return \<^verbatim>\<open>undefined\<close> with nothing logged.
\<close>

theorem handleCommand_not_found_counterexample:
  "on_Enter Map.empty 0 ''nosuchcmd'' = ([], Returns Undefined)"
  by code_simp

end
